theory Spec2Isabelle
  imports Complex_Main
begin

section \<open>The two visualizer skins\<close>

text \<open>
  The repository holds two copies of one React program: the Kaspa skin
  (the file whose palette constant is \<open>KASPA_CYAN\<close>) and the Sui skin
  (\<open>src/App.tsx\<close>, palette constant \<open>SUI_BLUE\<close>).  Both have the same
  shape: component \<open>App\<close> owns the selection and the stats refs, component
  \<open>Scene\<close> owns the block history and runs the simulation loop once per
  rendered frame.  The model below follows the two files side by side; a
  \<open>theme\<close> argument picks the literals and the few places where the files
  differ.

  JavaScript numbers are modelled by \<open>int\<close> where the program only ever
  holds integers (ids, millisecond timestamps) and by \<open>real\<close> for the
  values returned by \<open>Math.random()\<close> and computed from them.  Ids stay
  far below \<open>2^53\<close> for any run that can be observed (one id per 300 ms),
  so the rounding of doubles is left out of the model.
\<close>

datatype theme = Kaspa | Sui

definition KASPA_CYAN :: string where
  "KASPA_CYAN = ''#48Cca8''"

definition SUI_BLUE :: string where
  "SUI_BLUE = ''#3898EC''"

text \<open>The argument type of \<open>playBlockSound\<close>: \<open>'normal' | 'gold' | 'red'\<close> in the
  Kaspa skin, \<open>'normal' | 'large' | 'error'\<close> in the Sui skin.\<close>

datatype sound = Normal | Gold | Red | Large | Error

text \<open>
  The \<open>hash\<close> field is either the literal \<open>'genesis'\<close> or text rendered
  from random draws by \<open>Number.prototype.toString(radix)\<close> and
  \<open>substring\<close>.  The rendering belongs to the JavaScript runtime; the
  model keeps the prefix, the radix and the draws it is rendered from.
\<close>

datatype hashText = Literal string | Digits string nat "real list"

text \<open>Interface \<open>BlockData\<close>.  The field \<open>tps\<close> exists in the Sui skin only.\<close>

record BlockData =
  blockId :: int
  position :: "real \<times> real \<times> real"
  parents :: "int list"
  color :: string
  createdAt :: int
  hash :: hashText
  difficulty :: int
  tps :: "int option"

text \<open>
  The text shown by a HUD element: the markup it was rendered with, the
  result of \<open>toFixed(d) + suffix\<close>, or the result of \<open>toLocaleString()\<close>.
\<close>

datatype innerText = Markup string | Fixed real nat string | LocaleString int

text \<open>
  The object behind \<open>statsRefs.current\<close>.  An element ref is \<open>None\<close> while it
  is \<open>null\<close>.  \<open>baseHeight\<close> is \<open>None\<close> when it holds \<open>NaN\<close> (a possible
  result of \<open>parseInt\<close>).
\<close>

record statsRefs =
  bps :: "innerText option"
  count :: "innerText option"
  baseHeight :: "int option"

text \<open>
  The state of the mounted application: the React state and refs of
  \<open>Scene\<close> (\<open>blocks\<close>, \<open>lastIdRef\<close>, \<open>lastTimeRef\<close>, \<open>hasStartedRef\<close>), the
  state and refs of \<open>App\<close> (\<open>selectedBlock\<close>, the running flag, which is
  called \<open>started\<close> in the Kaspa skin and \<open>isRunning\<close> in the Sui skin, and
  \<open>statsRefs\<close>), and whether the promise returned by \<open>fetch\<close> is still
  pending.  The frame callback reads \<open>blocks\<close> from the latest render; the
  model identifies it with the committed state, since React re-renders
  \<open>Scene\<close> after every \<open>setBlocks\<close> and two firing frames are more than
  300 ms apart.
\<close>

record app =
  blocks :: "BlockData list"
  lastIdRef :: int
  lastTimeRef :: int
  hasStartedRef :: bool
  stats :: statsRefs
  selectedBlock :: "BlockData option"
  isRunning :: bool
  fetchPending :: bool

section \<open>Per-theme literals\<close>

text \<open>The interval of the simulation loop, in milliseconds.\<close>

fun interval :: "theme \<Rightarrow> int" where
  "interval Kaspa = 300"
| "interval Sui = 600"

text \<open>The argument of \<open>blocks.slice(-n)\<close>.\<close>

fun window :: "theme \<Rightarrow> nat" where
  "window Kaspa = 8"
| "window Sui = 6"

text \<open>The bound in \<open>Math.random() > p\<close> that links a candidate parent.\<close>

fun linkBound :: "theme \<Rightarrow> real" where
  "linkBound Kaspa = 6 / 10"
| "linkBound Sui = 5 / 10"

text \<open>The bound in \<open>updated.length > n\<close> of the \<open>setBlocks\<close> updater.\<close>

fun cap :: "theme \<Rightarrow> nat" where
  "cap Kaspa = 75"
| "cap Sui = 40"

section \<open>The block generator\<close>

text \<open>\<open>xs.slice(-n)\<close>: the last \<open>n\<close> elements, all of them when there are fewer.\<close>

definition sliceLast :: "nat \<Rightarrow> 'a list \<Rightarrow> 'a list" where
  "sliceLast n xs = drop (length xs - n) xs"

text \<open>
  \<open>potentialParents.forEach(b => { if (Math.random() > p) parents.push(b.id) })\<close>.
  \<open>rnd k\<close> is the value of the \<open>k\<close>-th call of \<open>Math.random()\<close> made by the
  frame callback; \<open>i\<close> is the number of calls made so far.
\<close>

fun pickParents :: "real \<Rightarrow> BlockData list \<Rightarrow> (nat \<Rightarrow> real) \<Rightarrow> nat \<Rightarrow> int list" where
  "pickParents p [] rnd i = []"
| "pickParents p (b # bs) rnd i =
     (if rnd i > p then [blockId b] else []) @ pickParents p bs rnd (Suc i)"

text \<open>Parent selection with the fallback \<open>parents.push(blocks[blocks.length - 1].id)\<close>.
  The first two draws of the callback are spent on \<open>x\<close> and \<open>y\<close>.\<close>

definition findParents :: "theme \<Rightarrow> BlockData list \<Rightarrow> (nat \<Rightarrow> real) \<Rightarrow> int list" where
  "findParents th bs rnd =
     (let potentialParents = sliceLast (window th) bs;
          picked = pickParents (linkBound th) potentialParents rnd 2
      in if length picked = 0 \<and> length bs > 0 then picked @ [blockId (last bs)] else picked)"

text \<open>The colour logic: the pair \<open>(color, type)\<close> for the draw \<open>rnd\<close>.\<close>

fun colorLogic :: "theme \<Rightarrow> real \<Rightarrow> string \<times> sound" where
  "colorLogic Kaspa rnd =
     (if rnd > 95 / 100 then (''#FFD700'', Gold)
      else if rnd > 90 / 100 then (''#FF4081'', Red)
      else (KASPA_CYAN, Normal))"
| "colorLogic Sui rnd =
     (if rnd > 95 / 100 then (''#ffffff'', Large)
      else if rnd > 98 / 100 then (''#FF4081'', Error)
      else (SUI_BLUE, Normal))"

text \<open>\<open>playBlockSound\<close> calls \<open>Math.random()\<close> once, in its last branch only; the
  audio itself is outside the model.\<close>

fun playBlockSound :: "sound \<Rightarrow> nat" where
  "playBlockSound Gold = 0"
| "playBlockSound Large = 0"
| "playBlockSound Red = 0"
| "playBlockSound Error = 0"
| "playBlockSound Normal = 1"

text \<open>
  The object literal \<open>newBlock\<close> of a firing frame, built from the state the
  callback sees.  Draws, in call order: \<open>x\<close>, \<open>y\<close>, one per candidate
  parent, the colour draw, the draw of \<open>playBlockSound\<close> (for \<open>'normal'\<close>),
  then the draws of \<open>hash\<close> and of \<open>difficulty\<close> (Kaspa) or \<open>tps\<close> (Sui).
\<close>

definition newBlock :: "theme \<Rightarrow> int \<Rightarrow> (nat \<Rightarrow> real) \<Rightarrow> app \<Rightarrow> BlockData" where
  "newBlock th now rnd s =
     (let newId = lastIdRef s + 1;
          z = of_int newId * (15 / 10);
          x = (rnd 0 - 5 / 10) * 8;
          y = (rnd 1 - 5 / 10) * 4;
          k = length (sliceLast (window th) (blocks s));
          (c, t) = colorLogic th (rnd (k + 2));
          j = k + 3 + playBlockSound t
      in \<lparr> blockId = newId,
           position = (x, y, z),
           parents = findParents th (blocks s) rnd,
           color = c,
           createdAt = now,
           hash = (case th of
                     Kaspa \<Rightarrow> Digits [] 36 [rnd j, rnd (j + 1)]
                   | Sui \<Rightarrow> Digits ''0x'' 16 [rnd j]),
           difficulty = (case th of
                     Kaspa \<Rightarrow> \<lfloor>rnd (j + 2) * 1000\<rfloor> + 1000
                   | Sui \<Rightarrow> 1),
           tps = (case th of
                     Kaspa \<Rightarrow> None
                   | Sui \<Rightarrow> Some (\<lfloor>rnd (j + 1) * 5000\<rfloor> + 1000)) \<rparr>)"

section \<open>Bounded history\<close>

text \<open>The updater passed to \<open>setBlocks\<close>: append, then \<open>shift()\<close> once when the
  length exceeds the cap.\<close>

definition setBlocksUpdater :: "theme \<Rightarrow> BlockData \<Rightarrow> BlockData list \<Rightarrow> BlockData list" where
  "setBlocksUpdater th b prev =
     (let updated = prev @ [b]
      in if length updated > cap th then tl updated else updated)"

section \<open>Stats sink\<close>

text \<open>
  The direct writes to the HUD at the end of a firing frame.  \<open>lastTime\<close>
  is \<open>lastTimeRef.current\<close> as the callback left it, \<open>j\<close> the number of
  draws made before.  \<open>(baseHeight || 0)\<close> is \<open>0\<close> for \<open>NaN\<close> and for \<open>0\<close>.
\<close>

definition updateStats ::
  "theme \<Rightarrow> int \<Rightarrow> int \<Rightarrow> int \<Rightarrow> (nat \<Rightarrow> real) \<Rightarrow> nat \<Rightarrow> statsRefs \<Rightarrow> statsRefs" where
  "updateStats th now lastTime newId rnd j st =
     (let rate = (case th of
                    Kaspa \<Rightarrow> Fixed (1000 / of_int (now - (lastTime - 300)) * 1) 1 '' BPS''
                  | Sui \<Rightarrow> Fixed (2000 + rnd j * 3000) 0 '' TPS'');
          realHeight = (case baseHeight st of None \<Rightarrow> 0 | Some h \<Rightarrow> h) + newId
      in st \<lparr> bps := map_option (\<lambda>_. rate) (bps st),
              count := map_option (\<lambda>_. LocaleString realHeight) (count st) \<rparr>)"

section \<open>Growth clock\<close>

text \<open>The two guards of the frame callback.\<close>

definition fires :: "theme \<Rightarrow> int \<Rightarrow> app \<Rightarrow> bool" where
  "fires th now s =
     (\<not> (\<not> hasStartedRef s \<or> \<not> isRunning s) \<and> now - lastTimeRef s > interval th)"

text \<open>The number of draws a firing frame has made when it reaches the stats update.\<close>

definition drawsBeforeStats :: "theme \<Rightarrow> (nat \<Rightarrow> real) \<Rightarrow> app \<Rightarrow> nat" where
  "drawsBeforeStats th rnd s =
     (let k = length (sliceLast (window th) (blocks s));
          j = k + 3 + playBlockSound (snd (colorLogic th (rnd (k + 2))))
      in case th of Kaspa \<Rightarrow> j + 3 | Sui \<Rightarrow> j + 2)"

text \<open>The callback given to \<open>useFrame\<close> in \<open>Scene\<close>, called with the value \<open>now\<close>
  of \<open>Date.now()\<close> and the draws \<open>rnd\<close>.\<close>

definition tick :: "theme \<Rightarrow> int \<Rightarrow> (nat \<Rightarrow> real) \<Rightarrow> app \<Rightarrow> app" where
  "tick th now rnd s =
     (if \<not> hasStartedRef s \<or> \<not> isRunning s then s
      else if now - lastTimeRef s > interval th then
        (let newId = lastIdRef s + 1;
             b = newBlock th now rnd s
         in s \<lparr> lastTimeRef := now,
                lastIdRef := newId,
                blocks := setBlocksUpdater th b (blocks s),
                stats := updateStats th now now newId rnd (drawsBeforeStats th rnd s) (stats s) \<rparr>)
      else s)"

section \<open>Startup: the fetch and the mount effects\<close>

text \<open>A parsed JSON body.  An object keeps its members in source order.\<close>

datatype json =
  JNull | JBool bool | JNum real | JStr string | JArr "json list" | JObj "(string \<times> json) list"

text \<open>
  How the promise chain \<open>fetch(url).then(res => res.json())\<close> can settle:
  \<open>fetch\<close> rejects (no response at all), or it resolves with a response of
  some HTTP status whose body either is not JSON (\<open>res.json()\<close> rejects:
  \<open>None\<close>) or parses to a value.  The code never reads the status.
\<close>

datatype fetchOutcome = Rejected | Response nat "json option"

text \<open>JavaScript truthiness of a JSON value.\<close>

fun truthy :: "json \<Rightarrow> bool" where
  "truthy JNull = False"
| "truthy (JBool b) = b"
| "truthy (JNum r) = (r \<noteq> 0)"
| "truthy (JStr s) = (s \<noteq> [])"
| "truthy (JArr xs) = True"
| "truthy (JObj kvs) = True"

text \<open>\<open>data.blockCount\<close> for a non-null \<open>data\<close>: \<open>None\<close> is \<open>undefined\<close>.  Of a
  repeated key \<open>JSON.parse\<close> keeps the last member.\<close>

fun blockCount :: "json \<Rightarrow> json option" where
  "blockCount (JObj kvs) = map_of (rev kvs) ''blockCount''"
| "blockCount other = None"

text \<open>
  The second \<open>then\<close> callback.  \<open>parseInt\<close> is the runtime's function, taken
  as a parameter; it yields \<open>None\<close> for \<open>NaN\<close>.  There is no \<open>else\<close> branch.
\<close>

definition fetchThen :: "(json \<Rightarrow> int option) \<Rightarrow> json \<Rightarrow> app \<Rightarrow> app" where
  "fetchThen parseInt data s =
     (case (if truthy data then blockCount data else None) of
        None \<Rightarrow> s
      | Some v \<Rightarrow>
          if truthy v
          then s \<lparr> stats := (stats s) \<lparr> baseHeight := parseInt v \<rparr>, hasStartedRef := True \<rparr>
          else s)"

text \<open>The \<open>catch\<close> callback (the logging is outside the model).\<close>

definition fetchCatch :: "app \<Rightarrow> app" where
  "fetchCatch s = s \<lparr> stats := (stats s) \<lparr> baseHeight := Some 100000000 \<rparr>, hasStartedRef := True \<rparr>"

definition fetchSettled :: "(json \<Rightarrow> int option) \<Rightarrow> fetchOutcome \<Rightarrow> app \<Rightarrow> app" where
  "fetchSettled parseInt out s =
     (case out of
        Rejected \<Rightarrow> fetchCatch s
      | Response status None \<Rightarrow> fetchCatch s
      | Response status (Some data) \<Rightarrow> fetchThen parseInt data s) \<lparr> fetchPending := False \<rparr>"

text \<open>The seed block of the effect \<open>Initial seed\<close>.\<close>

definition genesis :: "theme \<Rightarrow> int \<Rightarrow> BlockData" where
  "genesis th t =
     \<lparr> blockId = 0,
       position = (0, 0, 0),
       parents = [],
       color = (case th of Kaspa \<Rightarrow> KASPA_CYAN | Sui \<Rightarrow> SUI_BLUE),
       createdAt = t,
       hash = Literal ''genesis'',
       difficulty = 1,
       tps = (case th of Kaspa \<Rightarrow> None | Sui \<Rightarrow> Some 0) \<rparr>"

text \<open>The initial values of \<open>useState\<close> and \<open>useRef\<close>, with the HUD elements
  attached; \<open>t0\<close> is the value of \<open>Date.now()\<close> in \<open>useRef(Date.now())\<close>.\<close>

definition initial :: "theme \<Rightarrow> int \<Rightarrow> app" where
  "initial th t0 =
     \<lparr> blocks = [],
       lastIdRef = 0,
       lastTimeRef = t0,
       hasStartedRef = False,
       stats = \<lparr> bps = Some (Markup (case th of Kaspa \<Rightarrow> ''0.0 BPS'' | Sui \<Rightarrow> ''0'')),
                 count = Some (Markup ''LOADING...''),
                 baseHeight = Some 0 \<rparr>,
       selectedBlock = None,
       isRunning = (case th of Kaspa \<Rightarrow> False | Sui \<Rightarrow> True),
       fetchPending = False \<rparr>"

text \<open>
  The first effect of \<open>Scene\<close>.  Kaspa: the fetch is started.  Sui: the
  flag is set at once, and \<open>baseHeight\<close> is overwritten only when it is
  already truthy.
\<close>

fun startEffect :: "theme \<Rightarrow> app \<Rightarrow> app" where
  "startEffect Kaspa s = s \<lparr> fetchPending := True \<rparr>"
| "startEffect Sui s =
     (let s1 = s \<lparr> hasStartedRef := True \<rparr>
      in if baseHeight (stats s1) \<noteq> None \<and> baseHeight (stats s1) \<noteq> Some 0
         then s1 \<lparr> stats := (stats s1) \<lparr> baseHeight := Some 124500000 \<rparr> \<rparr>
         else s1)"

text \<open>The second effect of \<open>Scene\<close>: \<open>setBlocks([genesis])\<close>, at time \<open>t1\<close>.\<close>

definition seedEffect :: "theme \<Rightarrow> int \<Rightarrow> app \<Rightarrow> app" where
  "seedEffect th t1 s = s \<lparr> blocks := [genesis th t1] \<rparr>"

definition mount :: "theme \<Rightarrow> int \<Rightarrow> int \<Rightarrow> app" where
  "mount th t0 t1 = seedEffect th t1 (startEffect th (initial th t0))"

section \<open>Selection state\<close>

text \<open>The prop \<open>selectedBlockId\<close>: \<open>selectedBlock?.id ?? null\<close> in the Kaspa skin,
  \<open>selectedBlock?.id || null\<close> in the Sui skin (\<open>0 || null\<close> is \<open>null\<close>).\<close>

fun selectedBlockId :: "theme \<Rightarrow> BlockData option \<Rightarrow> int option" where
  "selectedBlockId th None = None"
| "selectedBlockId Kaspa (Some b) = Some (blockId b)"
| "selectedBlockId Sui (Some b) = (if blockId b = 0 then None else Some (blockId b))"

text \<open>The prop \<open>isSelected={selectedBlockId === block.id}\<close> of a rendered block.\<close>

definition isSelected :: "theme \<Rightarrow> app \<Rightarrow> BlockData \<Rightarrow> bool" where
  "isSelected th s block = (selectedBlockId th (selectedBlock s) = Some (blockId block))"

section \<open>Events and runs\<close>

text \<open>
  What can happen to the mounted application: a rendered frame (with the
  clock reading and the random draws of that frame), the fetch settling,
  a call of \<open>setSelectedBlock\<close> (a click on a block, on the background, or
  on CLOSE), the start button (Kaspa), the pause/resume button (Sui).
\<close>

datatype event =
  Frame int "nat \<Rightarrow> real"
| FetchSettled fetchOutcome
| Select "BlockData option"
| HandleStart
| ToggleRunning

fun step :: "theme \<Rightarrow> (json \<Rightarrow> int option) \<Rightarrow> event \<Rightarrow> app \<Rightarrow> app" where
  "step th parseInt (Frame now rnd) s = tick th now rnd s"
| "step th parseInt (FetchSettled out) s =
     (if fetchPending s then fetchSettled parseInt out s else s)"
| "step th parseInt (Select sel) s = s \<lparr> selectedBlock := sel \<rparr>"
| "step th parseInt HandleStart s = (case th of Kaspa \<Rightarrow> s \<lparr> isRunning := True \<rparr> | Sui \<Rightarrow> s)"
| "step th parseInt ToggleRunning s =
     (case th of Kaspa \<Rightarrow> s | Sui \<Rightarrow> s \<lparr> isRunning := \<not> isRunning s \<rparr>)"

fun exec :: "theme \<Rightarrow> (json \<Rightarrow> int option) \<Rightarrow> event list \<Rightarrow> app \<Rightarrow> app" where
  "exec th parseInt [] s = s"
| "exec th parseInt (e # es) s = exec th parseInt es (step th parseInt e s)"

text \<open>The blocks built by the firing frames of a run, in order of creation.\<close>

fun produced :: "theme \<Rightarrow> (json \<Rightarrow> int option) \<Rightarrow> event list \<Rightarrow> app \<Rightarrow> BlockData list" where
  "produced th parseInt [] s = []"
| "produced th parseInt (e # es) s =
     (case e of
        Frame now rnd \<Rightarrow> if fires th now s then [newBlock th now rnd s] else []
      | other \<Rightarrow> [])
     @ produced th parseInt es (step th parseInt e s)"

section \<open>Predicates on histories and a sample run\<close>

text \<open>What the generator promises of one block: its parent list has no
  repetition, is no longer than the window, is non-empty unless the block
  is the seed, and names only smaller, non-negative ids.\<close>

definition wellLinked :: "theme \<Rightarrow> BlockData \<Rightarrow> bool" where
  "wellLinked th b =
     (distinct (parents b) \<and> length (parents b) \<le> window th \<and>
      (blockId b \<noteq> 0 \<longrightarrow> parents b \<noteq> []) \<and>
      (\<forall>p \<in> set (parents b). 0 \<le> p \<and> p < blockId b))"

text \<open>The invariant of the state under every event: the history is non-empty
  and within the cap, its ids increase strictly from front to back and are
  at most \<open>lastIdRef\<close>, and every block in it is well linked.\<close>

definition invar :: "theme \<Rightarrow> app \<Rightarrow> bool" where
  "invar th s =
     (blocks s \<noteq> [] \<and> length (blocks s) \<le> cap th \<and>
      sorted_wrt (<) (map blockId (blocks s)) \<and>
      (\<forall>b \<in> set (blocks s). 0 \<le> blockId b \<and> blockId b \<le> lastIdRef s \<and> wellLinked th b))"

text \<open>A run used as a concrete example: \<open>n\<close> frames of the Sui skin, one second
  apart, every draw being \<open>0\<close>.\<close>

definition steadyFrames :: "nat \<Rightarrow> event list" where
  "steadyFrames n = map (\<lambda>k. Frame (1000 * int k) (\<lambda>i. 0)) [1..<Suc n]"

section \<open>The growth clock: basic facts\<close>

lemma tick_fires:
  "tick th now rnd s =
     (if fires th now s then
        s \<lparr> lastTimeRef := now, lastIdRef := lastIdRef s + 1,
            blocks := setBlocksUpdater th (newBlock th now rnd s) (blocks s),
            stats := updateStats th now now (lastIdRef s + 1) rnd
                       (drawsBeforeStats th rnd s) (stats s) \<rparr>
      else s)"
  by (simp add: tick_def fires_def Let_def)

lemma tick_at_interval_is_noop:
  "now - lastTimeRef s \<le> interval th \<Longrightarrow> tick th now rnd s = s"
  by (simp add: tick_def)

lemma tick_not_started: "\<not> hasStartedRef s \<Longrightarrow> tick th now rnd s = s"
  by (simp add: tick_def)

lemma tick_paused: "\<not> isRunning s \<Longrightarrow> tick th now rnd s = s"
  by (simp add: tick_def)

lemma tick_selectedBlock: "selectedBlock (tick th now rnd s) = selectedBlock s"
  by (simp add: tick_fires)

section \<open>The block generator: parents\<close>

lemma cap_pos: "0 < cap th" by (cases th) simp_all
lemma window_pos: "0 < window th" by (cases th) simp_all

lemma length_sliceLast: "length (sliceLast n xs) \<le> n"
  by (simp add: sliceLast_def)

lemma set_sliceLast: "set (sliceLast n xs) \<subseteq> set xs"
  by (simp add: sliceLast_def set_drop_subset)

lemma sorted_sliceLast:
  "sorted_wrt (<) (map f xs) \<Longrightarrow> sorted_wrt (<) (map f (sliceLast n xs))"
  by (simp add: sliceLast_def sorted_wrt_drop flip: drop_map)

lemma length_pickParents: "length (pickParents p bs rnd i) \<le> length bs"
  by (induction bs arbitrary: i) (auto simp: le_SucI)

lemma set_pickParents: "set (pickParents p bs rnd i) \<subseteq> blockId ` set bs"
  by (induction bs arbitrary: i) auto

lemma distinct_pickParents:
  "distinct (map blockId bs) \<Longrightarrow> distinct (pickParents p bs rnd i)"
proof (induction bs arbitrary: i)
  case Nil
  show ?case by simp
next
  case (Cons b bs)
  have "blockId b \<notin> set (pickParents p bs rnd (Suc i))"
    using Cons.prems set_pickParents [of p bs rnd "Suc i"] by auto
  with Cons show ?case by simp
qed

lemma strict_sorted_distinct:
  "sorted_wrt (<) (xs :: int list) \<Longrightarrow> distinct xs"
  by (simp add: strict_sorted_iff)

lemma findParents_Nil: "findParents th [] rnd = []"
  by (simp add: findParents_def sliceLast_def)

lemma findParents_nonempty: "bs \<noteq> [] \<Longrightarrow> findParents th bs rnd \<noteq> []"
  by (simp add: findParents_def Let_def)

lemma set_findParents: "set (findParents th bs rnd) \<subseteq> blockId ` set bs"
proof (cases "bs = []")
  case True
  then show ?thesis by (simp add: findParents_Nil)
next
  case False
  have "set (pickParents (linkBound th) (sliceLast (window th) bs) rnd 2) \<subseteq> blockId ` set bs"
    using set_pickParents [of "linkBound th" "sliceLast (window th) bs" rnd 2]
      set_sliceLast [of "window th" bs] by blast
  with False show ?thesis
    by (auto simp: findParents_def Let_def)
qed

lemma length_findParents: "length (findParents th bs rnd) \<le> window th"
proof -
  have "length (pickParents (linkBound th) (sliceLast (window th) bs) rnd 2) \<le> window th"
    using length_pickParents [of "linkBound th" "sliceLast (window th) bs" rnd 2]
      length_sliceLast [of "window th" bs] by linarith
  then show ?thesis
    using window_pos [of th] by (auto simp: findParents_def Let_def)
qed

lemma distinct_findParents:
  assumes "sorted_wrt (<) (map blockId bs)"
  shows "distinct (findParents th bs rnd)"
proof -
  have "distinct (map blockId (sliceLast (window th) bs))"
    using assms by (intro strict_sorted_distinct sorted_sliceLast)
  then have "distinct (pickParents (linkBound th) (sliceLast (window th) bs) rnd 2)"
    by (rule distinct_pickParents)
  then show ?thesis
    by (auto simp: findParents_def Let_def)
qed

lemma newBlock_sel [simp]:
  "blockId (newBlock th now rnd s) = lastIdRef s + 1"
  "parents (newBlock th now rnd s) = findParents th (blocks s) rnd"
  "createdAt (newBlock th now rnd s) = now"
  by (simp_all add: newBlock_def Let_def split: prod.splits)

lemma newBlock_wellLinked:
  assumes "invar th s"
  shows "wellLinked th (newBlock th now rnd s)"
proof -
  have ne: "blocks s \<noteq> []" and srt: "sorted_wrt (<) (map blockId (blocks s))"
    and ids: "\<forall>b \<in> set (blocks s). 0 \<le> blockId b \<and> blockId b \<le> lastIdRef s"
    using assms by (simp_all add: invar_def)
  have "\<forall>p \<in> set (findParents th (blocks s) rnd). 0 \<le> p \<and> p < lastIdRef s + 1"
    using set_findParents [of th "blocks s" rnd] ids by fastforce
  then show ?thesis
    using findParents_nonempty [OF ne] distinct_findParents [OF srt] length_findParents
    by (simp add: wellLinked_def)
qed

section \<open>The bounded history\<close>

lemma length_setBlocksUpdater:
  "length prev \<le> cap th \<Longrightarrow> length (setBlocksUpdater th b prev) \<le> cap th"
  by (simp add: setBlocksUpdater_def Let_def)

lemma setBlocksUpdater_nonempty: "setBlocksUpdater th b prev \<noteq> []"
  using cap_pos [of th] by (cases prev) (auto simp: setBlocksUpdater_def Let_def)

lemma set_setBlocksUpdater: "set (setBlocksUpdater th b prev) \<subseteq> insert b (set prev)"
  by (cases prev) (auto simp: setBlocksUpdater_def Let_def)

lemma sorted_wrt_tail: "sorted_wrt P xs \<Longrightarrow> sorted_wrt P (tl xs)"
  by (cases xs) simp_all

lemma sorted_setBlocksUpdater:
  assumes "sorted_wrt (<) (map blockId prev)" "\<forall>c \<in> set prev. blockId c < blockId b"
  shows "sorted_wrt (<) (map blockId (setBlocksUpdater th b prev))"
proof -
  have "sorted_wrt (<) (map blockId (prev @ [b]))"
    using assms by (simp add: sorted_wrt_append)
  then show ?thesis
    using sorted_wrt_tail [of "(<)" "map blockId (prev @ [b])"]
    by (simp add: setBlocksUpdater_def Let_def map_tl del: map_append)
qed

lemma length_setBlocksUpdater_eq:
  "length (setBlocksUpdater th b prev) = (if cap th < Suc (length prev) then length prev else Suc (length prev))"
  by (simp add: setBlocksUpdater_def Let_def)

lemma sliceLast_short: "length xs \<le> n \<Longrightarrow> sliceLast n xs = xs"
  by (simp add: sliceLast_def)

lemma sliceLast_sliceLast_append:
  "sliceLast n (sliceLast n xs @ ys) = sliceLast n (xs @ ys)"
proof (cases "length xs \<le> n")
  case True
  then show ?thesis by (simp add: sliceLast_short)
next
  case False
  then have "length ys + (length xs - n) = length xs + length ys - n" by simp
  with False show ?thesis
    by (simp add: sliceLast_def)
qed

lemma setBlocksUpdater_sliceLast:
  "length prev \<le> cap th \<Longrightarrow> setBlocksUpdater th b prev = sliceLast (cap th) (prev @ [b])"
  by (cases prev) (auto simp: setBlocksUpdater_def sliceLast_def Let_def Suc_diff_le drop_Suc)

section \<open>The invariant holds in every reachable state\<close>

lemma invar_tick:
  assumes "invar th s"
  shows "invar th (tick th now rnd s)"
proof (cases "fires th now s")
  case False
  then show ?thesis using assms by (simp add: tick_fires)
next
  case True
  let ?b = "newBlock th now rnd s"
  let ?bs = "setBlocksUpdater th ?b (blocks s)"
  have old: "\<forall>c \<in> set (blocks s). 0 \<le> blockId c \<and> blockId c \<le> lastIdRef s \<and> wellLinked th c"
    and srt: "sorted_wrt (<) (map blockId (blocks s))"
    and len: "length (blocks s) \<le> cap th"
    using assms by (simp_all add: invar_def)
  have lid: "0 \<le> lastIdRef s"
    using assms by (cases "blocks s") (auto simp: invar_def)
  have "\<forall>c \<in> set (blocks s). blockId c < blockId ?b"
    using old by auto
  then have s': "sorted_wrt (<) (map blockId ?bs)"
    using srt by (intro sorted_setBlocksUpdater)
  have "\<forall>c \<in> insert ?b (set (blocks s)).
          0 \<le> blockId c \<and> blockId c \<le> lastIdRef s + 1 \<and> wellLinked th c"
    using old lid newBlock_wellLinked [OF assms, of now rnd] by auto
  then have all': "\<forall>c \<in> set ?bs. 0 \<le> blockId c \<and> blockId c \<le> lastIdRef s + 1 \<and> wellLinked th c"
    using set_setBlocksUpdater [of th ?b "blocks s"] by blast
  show ?thesis
    using True s' all' length_setBlocksUpdater [OF len, of ?b] setBlocksUpdater_nonempty [of th ?b "blocks s"]
    by (simp add: tick_fires invar_def)
qed

lemma blocks_fetchSettled [simp]:
  "blocks (fetchSettled pI out s) = blocks s"
  "lastIdRef (fetchSettled pI out s) = lastIdRef s"
  by (auto simp: fetchSettled_def fetchCatch_def fetchThen_def split: fetchOutcome.splits option.splits)

lemma invar_step:
  assumes "invar th s"
  shows "invar th (step th pI e s)"
proof (cases e)
  case (Frame now rnd)
  then show ?thesis using invar_tick [OF assms] by simp
next
  case (FetchSettled out)
  then show ?thesis using assms by (simp add: invar_def)
next
  case (Select sel)
  then show ?thesis using assms by (simp add: invar_def)
next
  case HandleStart
  then show ?thesis using assms by (cases th) (simp_all add: invar_def)
next
  case ToggleRunning
  then show ?thesis using assms by (cases th) (simp_all add: invar_def)
qed

lemma invar_exec: "invar th s \<Longrightarrow> invar th (exec th pI evs s)"
  by (induction evs arbitrary: s) (simp_all add: invar_step)

lemma blocks_mount [simp]: "blocks (mount th t0 t1) = [genesis th t1]"
  by (simp add: mount_def seedEffect_def)

lemma lastIdRef_mount [simp]: "lastIdRef (mount th t0 t1) = 0"
  by (cases th) (simp_all add: mount_def seedEffect_def initial_def Let_def)

lemma genesis_sel [simp]:
  "blockId (genesis th t) = 0" "parents (genesis th t) = []"
  by (simp_all add: genesis_def)

lemma invar_mount: "invar th (mount th t0 t1)"
  using cap_pos [of th] by (simp add: invar_def wellLinked_def Suc_leI)

lemma invar_reachable: "invar th (exec th pI evs (mount th t0 t1))"
  by (rule invar_exec [OF invar_mount])

section \<open>Runs\<close>

lemma exec_append: "exec th pI (xs @ ys) s = exec th pI ys (exec th pI xs s)"
  by (induction xs arbitrary: s) simp_all

lemma step_quiet:
  assumes "\<not> (\<exists>now rnd. e = Frame now rnd \<and> fires th now s)"
  shows "blocks (step th pI e s) = blocks s"
    and "lastIdRef (step th pI e s) = lastIdRef s"
    and "produced th pI (e # es) s = produced th pI es (step th pI e s)"
proof -
  have "blocks (step th pI e s) = blocks s \<and> lastIdRef (step th pI e s) = lastIdRef s \<and>
        produced th pI (e # es) s = produced th pI es (step th pI e s)"
  proof (cases e)
    case (Frame now rnd)
    with assms have "\<not> fires th now s" by simp
    with Frame show ?thesis by (simp add: tick_fires)
  next
    case (FetchSettled out)
    then show ?thesis by simp
  next
    case (Select sel)
    then show ?thesis by simp
  next
    case HandleStart
    then show ?thesis by (cases th) simp_all
  next
    case ToggleRunning
    then show ?thesis by (cases th) simp_all
  qed
  then show "blocks (step th pI e s) = blocks s"
    and "lastIdRef (step th pI e s) = lastIdRef s"
    and "produced th pI (e # es) s = produced th pI es (step th pI e s)"
    by simp_all
qed

lemma step_firing:
  assumes "fires th now s"
  shows "blocks (step th pI (Frame now rnd) s) = setBlocksUpdater th (newBlock th now rnd s) (blocks s)"
    and "lastIdRef (step th pI (Frame now rnd) s) = lastIdRef s + 1"
    and "produced th pI (Frame now rnd # es) s =
           newBlock th now rnd s # produced th pI es (step th pI (Frame now rnd) s)"
  using assms by (simp_all add: tick_fires)

lemma blocks_exec_produced:
  "length (blocks s) \<le> cap th \<Longrightarrow>
     blocks (exec th pI evs s) = sliceLast (cap th) (blocks s @ produced th pI evs s)"
proof (induction evs arbitrary: s)
  case Nil
  then show ?case by (simp add: sliceLast_short)
next
  case (Cons e es)
  show ?case
  proof (cases "\<exists>now rnd. e = Frame now rnd \<and> fires th now s")
    case True
    then obtain now rnd where e: "e = Frame now rnd" and f: "fires th now s" by blast
    let ?b = "newBlock th now rnd s"
    let ?s' = "step th pI (Frame now rnd) s"
    have b': "blocks ?s' = sliceLast (cap th) (blocks s @ [?b])"
      using step_firing(1) [OF f] Cons.prems by (simp add: setBlocksUpdater_sliceLast)
    then have "length (blocks ?s') \<le> cap th"
      by (simp add: length_sliceLast)
    then have "blocks (exec th pI es ?s') = sliceLast (cap th) (blocks ?s' @ produced th pI es ?s')"
      by (rule Cons.IH)
    also have "\<dots> = sliceLast (cap th) ((blocks s @ [?b]) @ produced th pI es ?s')"
      unfolding b' by (rule sliceLast_sliceLast_append)
    finally show ?thesis
      unfolding e exec.simps step_firing(3) [OF f] by simp
  next
    case False
    have "length (blocks (step th pI e s)) \<le> cap th"
      using Cons.prems step_quiet(1) [OF False] by simp
    from Cons.IH [OF this] show ?thesis
      by (simp only: exec.simps step_quiet [OF False])
  qed
qed

lemma lastIdRef_exec_produced:
  "lastIdRef (exec th pI evs s) = lastIdRef s + int (length (produced th pI evs s))"
proof (induction evs arbitrary: s)
  case Nil
  show ?case by simp
next
  case (Cons e es)
  show ?case
  proof (cases "\<exists>now rnd. e = Frame now rnd \<and> fires th now s")
    case True
    then obtain now rnd where e: "e = Frame now rnd" and f: "fires th now s" by blast
    show ?thesis
      unfolding e exec.simps step_firing(3) [OF f]
      using Cons.IH [of "step th pI (Frame now rnd) s"] step_firing(2) [OF f, of pI rnd]
      by simp
  next
    case False
    show ?thesis
      using Cons.IH [of "step th pI e s"]
      by (simp only: exec.simps step_quiet [OF False])
  qed
qed

lemma produced_ids:
  "map blockId (produced th pI evs s) =
     map (\<lambda>k. lastIdRef s + 1 + int k) [0..<length (produced th pI evs s)]"
proof (induction evs arbitrary: s)
  case Nil
  show ?case by simp
next
  case (Cons e es)
  show ?case
  proof (cases "\<exists>now rnd. e = Frame now rnd \<and> fires th now s")
    case True
    then obtain now rnd where e: "e = Frame now rnd" and f: "fires th now s" by blast
    show ?thesis
      unfolding e step_firing(3) [OF f]
      using Cons.IH [of "step th pI (Frame now rnd) s"] step_firing(2) [OF f, of pI rnd]
      by (simp add: map_upt_Suc add.assoc del: upt_Suc)
  next
    case False
    show ?thesis
      using Cons.IH [of "step th pI e s"] by (simp only: step_quiet [OF False])
  qed
qed

lemma map_int_from_1: "map int [1..<Suc n] = map (\<lambda>k. 1 + int k) [0..<n]"
proof -
  have "[1..<Suc n] = map Suc [0..<n]"
    using map_Suc_upt [of 0 n] by simp
  then show ?thesis by (simp add: comp_def del: upt_Suc)
qed

lemma steady_run:
  "hasStartedRef (exec Sui pI (steadyFrames n) (mount Sui 0 0)) \<and>
   isRunning (exec Sui pI (steadyFrames n) (mount Sui 0 0)) \<and>
   lastTimeRef (exec Sui pI (steadyFrames n) (mount Sui 0 0)) = 1000 * int n \<and>
   length (blocks (exec Sui pI (steadyFrames n) (mount Sui 0 0))) = min 40 (Suc n)"
proof (induction n)
  case 0
  show ?case
    by (simp add: steadyFrames_def mount_def seedEffect_def initial_def)
next
  case (Suc n)
  let ?s = "exec Sui pI (steadyFrames n) (mount Sui 0 0)"
  have frames: "steadyFrames (Suc n) = steadyFrames n @ [Frame (1000 * int (Suc n)) (\<lambda>i. 0)]"
    by (simp add: steadyFrames_def)
  have f: "fires Sui (1000 * int (Suc n)) ?s"
    using Suc.IH by (simp add: fires_def)
  show ?case
    unfolding frames exec_append
    using Suc.IH f by (simp add: tick_fires length_setBlocksUpdater_eq)
qed

lemma sui_first_frame:
  "exec Sui pI [Frame 1000 (\<lambda>i. 0)] (mount Sui 0 0) = tick Sui 1000 (\<lambda>i. 0) (mount Sui 0 0)"
  "blocks (tick Sui 1000 (\<lambda>i. 0) (mount Sui 0 0)) =
     [genesis Sui 0, newBlock Sui 1000 (\<lambda>i. 0) (mount Sui 0 0)]"
  "lastIdRef (tick Sui 1000 (\<lambda>i. 0) (mount Sui 0 0)) = 1"
  "parents (newBlock Sui 1000 (\<lambda>i. 0) (mount Sui 0 0)) = [0]"
proof -
  have "fires Sui 1000 (mount Sui 0 0)"
    by (simp add: fires_def mount_def seedEffect_def initial_def)
  then show "blocks (tick Sui 1000 (\<lambda>i. 0) (mount Sui 0 0)) =
     [genesis Sui 0, newBlock Sui 1000 (\<lambda>i. 0) (mount Sui 0 0)]"
    and "lastIdRef (tick Sui 1000 (\<lambda>i. 0) (mount Sui 0 0)) = 1"
    by (simp_all add: tick_fires setBlocksUpdater_def)
  show "parents (newBlock Sui 1000 (\<lambda>i. 0) (mount Sui 0 0)) = [0]"
    by (simp add: findParents_def sliceLast_def)
  show "exec Sui pI [Frame 1000 (\<lambda>i. 0)] (mount Sui 0 0) = tick Sui 1000 (\<lambda>i. 0) (mount Sui 0 0)"
    by simp
qed

section \<open>Category draw\<close>

lemma colorLogic_examples:
  "colorLogic Kaspa (97 / 100) = (''#FFD700'', Gold)"
  "colorLogic Sui (97 / 100) = (''#ffffff'', Large)"
  "colorLogic Kaspa (92 / 100) = (''#FF4081'', Red)"
  "colorLogic Sui (92 / 100) = (SUI_BLUE, Normal)"
  by simp_all

lemma colorLogic_Kaspa_Gold: "snd (colorLogic Kaspa r) = Gold \<longleftrightarrow> 95 / 100 < r"
  by simp

lemma colorLogic_Kaspa_Red: "snd (colorLogic Kaspa r) = Red \<longleftrightarrow> 90 / 100 < r \<and> r \<le> 95 / 100"
  by auto

lemma colorLogic_Sui_Large: "snd (colorLogic Sui r) = Large \<longleftrightarrow> 95 / 100 < r"
  by simp

lemma colorLogic_Sui_never_Error: "snd (colorLogic Sui r) \<noteq> Error"
  by simp

text \<open>
  C1.  The category is a function of the draw, and the draws 0.97 and 0.92
  fall as the claim says (\<open>colorLogic_examples\<close>).  The claim also says
  that in the Sui skin the second category (\<open>'error'\<close>) is reached exactly
  for draws above 0.98.  The code tests \<open>rnd > 0.95\<close> first, so a draw of
  0.99, which is above 0.98, is given the first category \<open>'large'\<close>; the
  branch \<open>rnd > 0.98\<close> is never taken (\<open>colorLogic_Sui_never_Error\<close>).
\<close>

theorem sui_draw_above_098_is_large:
  "(98 / 100 :: real) < 99 / 100 \<and>
   colorLogic Sui (99 / 100) = (''#ffffff'', Large) \<and>
   snd (colorLogic Sui (99 / 100)) \<noteq> Error"
  by simp

section \<open>History cap and eviction order\<close>

text \<open>
  C2.  In every reachable state the history holds at most \<open>cap\<close> blocks
  (75 Kaspa, 40 Sui), and it is exactly the last \<open>cap\<close> blocks of
  everything created so far, the seed first and then the generated blocks
  in order of creation.  When a firing frame appends to a full history,
  the block dropped is the front one, and its id is below the id of every
  block that stays.
\<close>

theorem history_bounded_fifo:
  "length (blocks (exec th pI evs (mount th t0 t1))) \<le> cap th \<and>
   cap Kaspa = 75 \<and> cap Sui = 40 \<and>
   blocks (exec th pI evs (mount th t0 t1)) =
     sliceLast (cap th) (genesis th t1 # produced th pI evs (mount th t0 t1)) \<and>
   (\<forall>now rnd.
      fires th now (exec th pI evs (mount th t0 t1)) \<and>
      cap th < length (blocks (exec th pI evs (mount th t0 t1)) @
                       [newBlock th now rnd (exec th pI evs (mount th t0 t1))]) \<longrightarrow>
      blocks (tick th now rnd (exec th pI evs (mount th t0 t1))) =
        tl (blocks (exec th pI evs (mount th t0 t1))) @
        [newBlock th now rnd (exec th pI evs (mount th t0 t1))] \<and>
      (\<forall>b \<in> set (blocks (tick th now rnd (exec th pI evs (mount th t0 t1)))).
         blockId (hd (blocks (exec th pI evs (mount th t0 t1)))) < blockId b))"
proof -
  let ?s = "exec th pI evs (mount th t0 t1)"
  have inv: "invar th ?s" by (rule invar_reachable)
  have len: "length (blocks ?s) \<le> cap th"
    using inv by (simp add: invar_def)
  have "length (blocks (mount th t0 t1)) \<le> cap th"
    using cap_pos [of th] by (simp add: Suc_leI)
  from blocks_exec_produced [OF this, of pI evs]
  have hist: "blocks ?s = sliceLast (cap th) (genesis th t1 # produced th pI evs (mount th t0 t1))"
    by simp
  have evict: "blocks (tick th now rnd ?s) = tl (blocks ?s) @ [newBlock th now rnd ?s] \<and>
      (\<forall>b \<in> set (blocks (tick th now rnd ?s)). blockId (hd (blocks ?s)) < blockId b)"
    if f: "fires th now ?s" and full: "cap th < length (blocks ?s @ [newBlock th now rnd ?s])"
    for now rnd
  proof -
    obtain c cs where cs: "blocks ?s = c # cs"
      using inv by (cases "blocks ?s") (auto simp: invar_def)
    have new: "blocks (tick th now rnd ?s) = cs @ [newBlock th now rnd ?s]"
      using f full cs by (simp add: tick_fires setBlocksUpdater_def Let_def)
    have "\<forall>b \<in> set cs. blockId c < blockId b"
      using inv cs by (simp add: invar_def)
    moreover have "blockId c < blockId (newBlock th now rnd ?s)"
      using inv cs by (simp add: invar_def)
    ultimately show ?thesis
      using new cs by simp
  qed
  have caps: "cap Kaspa = 75" "cap Sui = 40" by simp_all
  show ?thesis
    using len caps hist evict by blast
qed

theorem history_bounded_fifo_witness:
  "fires Sui 50000 (exec Sui (\<lambda>v. None) (steadyFrames 39) (mount Sui 0 0)) \<and>
   cap Sui < length (blocks (exec Sui (\<lambda>v. None) (steadyFrames 39) (mount Sui 0 0)) @
                     [newBlock Sui 50000 (\<lambda>i. 0) (exec Sui (\<lambda>v. None) (steadyFrames 39) (mount Sui 0 0))]) \<and>
   length (blocks (exec Sui (\<lambda>v. None) (steadyFrames 39) (mount Sui 0 0))) \<le> cap Sui \<and>
   blocks (tick Sui 50000 (\<lambda>i. 0) (exec Sui (\<lambda>v. None) (steadyFrames 39) (mount Sui 0 0))) =
     tl (blocks (exec Sui (\<lambda>v. None) (steadyFrames 39) (mount Sui 0 0))) @
     [newBlock Sui 50000 (\<lambda>i. 0) (exec Sui (\<lambda>v. None) (steadyFrames 39) (mount Sui 0 0))] \<and>
   blockId (hd (blocks (exec Sui (\<lambda>v. None) (steadyFrames 39) (mount Sui 0 0))))
     < blockId (newBlock Sui 50000 (\<lambda>i. 0) (exec Sui (\<lambda>v. None) (steadyFrames 39) (mount Sui 0 0)))"
proof -
  let ?s = "exec Sui (\<lambda>v. None) (steadyFrames 39) (mount Sui 0 0)"
  let ?b = "newBlock Sui 50000 (\<lambda>i. 0) ?s"
  have f: "fires Sui 50000 ?s"
    using steady_run [of "\<lambda>v. None" 39] by (simp add: fires_def)
  have full: "cap Sui < length (blocks ?s @ [?b])"
    using steady_run [of "\<lambda>v. None" 39] by simp
  note inst = history_bounded_fifo [of Sui "\<lambda>v. None" "steadyFrames 39" 0 0]
  have len: "length (blocks ?s) \<le> cap Sui"
    using inst by blast
  have ev: "blocks (tick Sui 50000 (\<lambda>i. 0) ?s) = tl (blocks ?s) @ [?b] \<and>
      (\<forall>b \<in> set (blocks (tick Sui 50000 (\<lambda>i. 0) ?s)). blockId (hd (blocks ?s)) < blockId b)"
    using inst f full by blast
  then have eq: "blocks (tick Sui 50000 (\<lambda>i. 0) ?s) = tl (blocks ?s) @ [?b]"
    and older: "\<forall>b \<in> set (blocks (tick Sui 50000 (\<lambda>i. 0) ?s)). blockId (hd (blocks ?s)) < blockId b"
    by blast+
  have "?b \<in> set (blocks (tick Sui 50000 (\<lambda>i. 0) ?s))"
    unfolding eq by simp
  with older have "blockId (hd (blocks ?s)) < blockId ?b"
    by blast
  with f full len eq show ?thesis by blast
qed

section \<open>Parents\<close>

text \<open>
  C3.  Whenever the generator sees a non-empty history, the new block has
  at least one parent and every parent is the id of a block of that
  history.  In a reachable state every parent of the new block is smaller
  than the new id and is the id of a block that was created earlier (the
  seed or a generated block) and is still in the history.  Every block
  kept in a reachable history other than the seed has a parent, and all
  its parents are smaller than its own id.
\<close>

theorem parents_exist_and_precede:
  "(blocks s \<noteq> [] \<longrightarrow>
      parents (newBlock th now rnd s) \<noteq> [] \<and>
      set (parents (newBlock th now rnd s)) \<subseteq> blockId ` set (blocks s)) \<and>
   (\<forall>p \<in> set (parents (newBlock th now rnd (exec th pI evs (mount th t0 t1)))).
      p < blockId (newBlock th now rnd (exec th pI evs (mount th t0 t1))) \<and>
      (\<exists>c \<in> set (genesis th t1 # produced th pI evs (mount th t0 t1)).
         blockId c = p \<and> c \<in> set (blocks (exec th pI evs (mount th t0 t1))))) \<and>
   (\<forall>b \<in> set (blocks (exec th pI evs (mount th t0 t1))).
      (blockId b \<noteq> 0 \<longrightarrow> parents b \<noteq> []) \<and>
      (\<forall>p \<in> set (parents b). 0 \<le> p \<and> p < blockId b))"
proof -
  let ?s = "exec th pI evs (mount th t0 t1)"
  have inv: "invar th ?s" by (rule invar_reachable)
  have "length (blocks (mount th t0 t1)) \<le> cap th"
    using cap_pos [of th] by (simp add: Suc_leI)
  from blocks_exec_produced [OF this, of pI evs]
  have sub: "set (blocks ?s) \<subseteq> set (genesis th t1 # produced th pI evs (mount th t0 t1))"
    using set_sliceLast [of "cap th" "genesis th t1 # produced th pI evs (mount th t0 t1)"]
    by simp
  have A: "\<forall>p \<in> set (parents (newBlock th now rnd ?s)).
      p < blockId (newBlock th now rnd ?s) \<and>
      (\<exists>c \<in> set (genesis th t1 # produced th pI evs (mount th t0 t1)).
         blockId c = p \<and> c \<in> set (blocks ?s))"
  proof
    fix p
    assume "p \<in> set (parents (newBlock th now rnd ?s))"
    then have "p \<in> blockId ` set (blocks ?s)"
      using set_findParents [of th "blocks ?s" rnd] by auto
    then obtain c where c: "c \<in> set (blocks ?s)" "blockId c = p" by blast
    then have "blockId c \<le> lastIdRef ?s"
      using inv by (auto simp: invar_def)
    moreover have "c \<in> set (genesis th t1 # produced th pI evs (mount th t0 t1))"
      using c(1) sub by blast
    ultimately show "p < blockId (newBlock th now rnd ?s) \<and>
      (\<exists>c \<in> set (genesis th t1 # produced th pI evs (mount th t0 t1)).
         blockId c = p \<and> c \<in> set (blocks ?s))"
      using c by auto
  qed
  have B: "\<forall>b \<in> set (blocks ?s).
      (blockId b \<noteq> 0 \<longrightarrow> parents b \<noteq> []) \<and> (\<forall>p \<in> set (parents b). 0 \<le> p \<and> p < blockId b)"
    using inv by (simp add: invar_def wellLinked_def)
  have C: "blocks s \<noteq> [] \<longrightarrow>
      parents (newBlock th now rnd s) \<noteq> [] \<and>
      set (parents (newBlock th now rnd s)) \<subseteq> blockId ` set (blocks s)"
    using findParents_nonempty [of "blocks s" th rnd] set_findParents [of th "blocks s" rnd]
    by simp
  from A B C show ?thesis by blast
qed

theorem parents_exist_and_precede_witness:
  "blocks (exec Sui (\<lambda>v. None) [Frame 1000 (\<lambda>i. 0)] (mount Sui 0 0)) \<noteq> [] \<and>
   parents (newBlock Sui 2000 (\<lambda>i. 1) (exec Sui (\<lambda>v. None) [Frame 1000 (\<lambda>i. 0)] (mount Sui 0 0))) = [0, 1] \<and>
   blockId (newBlock Sui 2000 (\<lambda>i. 1) (exec Sui (\<lambda>v. None) [Frame 1000 (\<lambda>i. 0)] (mount Sui 0 0))) = 2 \<and>
   set (parents (newBlock Sui 2000 (\<lambda>i. 1) (exec Sui (\<lambda>v. None) [Frame 1000 (\<lambda>i. 0)] (mount Sui 0 0))))
     \<subseteq> blockId ` set (blocks (exec Sui (\<lambda>v. None) [Frame 1000 (\<lambda>i. 0)] (mount Sui 0 0))) \<and>
   newBlock Sui 1000 (\<lambda>i. 0) (mount Sui 0 0)
     \<in> set (blocks (exec Sui (\<lambda>v. None) [Frame 1000 (\<lambda>i. 0)] (mount Sui 0 0))) \<and>
   blockId (newBlock Sui 1000 (\<lambda>i. 0) (mount Sui 0 0)) \<noteq> 0 \<and>
   parents (newBlock Sui 1000 (\<lambda>i. 0) (mount Sui 0 0)) \<noteq> [] \<and>
   parents (newBlock Sui 1000 (\<lambda>i. 0) (mount Sui 0 0)) = [0]"
proof -
  let ?s1 = "exec Sui (\<lambda>v. None) [Frame 1000 (\<lambda>i. 0)] (mount Sui 0 0)"
  let ?b1 = "newBlock Sui 1000 (\<lambda>i. 0) (mount Sui 0 0)"
  let ?b2 = "newBlock Sui 2000 (\<lambda>i. 1) ?s1"
  note inst = parents_exist_and_precede [of ?s1 Sui 2000 "\<lambda>i. 1" "\<lambda>v. None" "[Frame 1000 (\<lambda>i. 0)]" 0 0]
  have bs: "blocks ?s1 = [genesis Sui 0, ?b1]"
    using sui_first_frame(1) [of "\<lambda>v. None"] sui_first_frame(2) by simp
  then have ne: "blocks ?s1 \<noteq> []" and mem: "?b1 \<in> set (blocks ?s1)"
    by simp_all
  have id1: "blockId ?b1 \<noteq> 0"
    by simp
  have "lastIdRef ?s1 = 1"
    using sui_first_frame(1) [of "\<lambda>v. None"] sui_first_frame(3) by simp
  then have id2: "blockId ?b2 = 2"
    by simp
  have p2: "parents ?b2 = [0, 1]"
    by (simp add: sui_first_frame(2) findParents_def sliceLast_def)
  have sub: "set (parents ?b2) \<subseteq> blockId ` set (blocks ?s1)"
    using inst ne by blast
  have "parents ?b1 \<noteq> []"
    using inst mem id1 by blast
  with ne p2 id2 sub mem id1 sui_first_frame(4) show ?thesis
    by blast
qed

section \<open>Identifiers\<close>

text \<open>
  C4.  Along every run the ids of the generated blocks are 1, 2, 3, ...
  in order of creation, and \<open>lastIdRef\<close> counts them.  The seed has id 0
  and no parents; it is put into the history by the mount effect and is
  not among the blocks built by the frame callback.
\<close>

theorem generated_ids_consecutive:
  "map blockId (produced th pI evs (mount th t0 t1)) =
     map int [1..<Suc (length (produced th pI evs (mount th t0 t1)))] \<and>
   lastIdRef (exec th pI evs (mount th t0 t1)) = int (length (produced th pI evs (mount th t0 t1))) \<and>
   blocks (mount th t0 t1) = [genesis th t1] \<and>
   blockId (genesis th t1) = 0 \<and> parents (genesis th t1) = [] \<and>
   genesis th t1 \<notin> set (produced th pI evs (mount th t0 t1))"
proof -
  let ?ps = "produced th pI evs (mount th t0 t1)"
  have ids: "map blockId ?ps = map int [1..<Suc (length ?ps)]"
    unfolding map_int_from_1 using produced_ids [of th pI evs "mount th t0 t1"] by simp
  have "(0::int) \<notin> set (map int [1..<Suc (length ?ps)])"
    by auto
  then have "0 \<notin> blockId ` set ?ps"
    using ids by (metis set_map)
  then have "genesis th t1 \<notin> set ?ps"
    by (metis genesis_sel(1) image_eqI)
  then show ?thesis
    using ids lastIdRef_exec_produced [of th pI evs "mount th t0 t1"] by simp
qed

theorem generated_ids_consecutive_witness:
  "map blockId (produced Sui (\<lambda>v. None) [Frame 1000 (\<lambda>i. 0), Frame 1200 (\<lambda>i. 0), Frame 2000 (\<lambda>i. 1)] (mount Sui 0 0)) = [1, 2] \<and>
   lastIdRef (exec Sui (\<lambda>v. None) [Frame 1000 (\<lambda>i. 0), Frame 1200 (\<lambda>i. 0), Frame 2000 (\<lambda>i. 1)] (mount Sui 0 0)) = 2"
proof -
  let ?evs = "[Frame 1000 (\<lambda>i. 0), Frame 1200 (\<lambda>i. 0), Frame 2000 (\<lambda>i. 1)]"
  have s0: "hasStartedRef (mount Sui 0 0)" "isRunning (mount Sui 0 0)" "lastTimeRef (mount Sui 0 0) = 0"
    by (simp_all add: mount_def seedEffect_def initial_def)
  have n: "length (produced Sui (\<lambda>v. None) ?evs (mount Sui 0 0)) = 2"
    using s0 by (simp add: fires_def tick_fires)
  show ?thesis
    using generated_ids_consecutive [of Sui "\<lambda>v. None" ?evs 0 0] unfolding n
    by (simp add: upt_rec)
qed

section \<open>Selection\<close>

lemma selection_cleared: "\<not> isSelected th (step th pI (Select None) s) b"
  by (simp add: isSelected_def)

lemma invar_ids_inj:
  assumes "invar th s" "b \<in> set (blocks s)" "c \<in> set (blocks s)" "blockId b = blockId c"
  shows "b = c"
proof -
  have "distinct (map blockId (blocks s))"
    using assms(1) by (simp add: invar_def strict_sorted_distinct)
  then have "inj_on blockId (set (blocks s))"
    by (simp add: distinct_map)
  with assms(2-4) show ?thesis
    by (simp add: inj_on_def)
qed

lemma selection_exact:
  assumes "th = Kaspa \<or> blockId b \<noteq> 0"
    and "b \<in> set (blocks (exec th pI evs (mount th t0 t1)))"
    and "c \<in> set (blocks (exec th pI evs (mount th t0 t1)))"
  shows "isSelected th (step th pI (Select (Some b)) (exec th pI evs (mount th t0 t1))) c \<longleftrightarrow> c = b"
proof -
  have "isSelected th (step th pI (Select (Some b)) (exec th pI evs (mount th t0 t1))) c
          \<longleftrightarrow> blockId b = blockId c"
    using assms(1) by (cases th) (simp_all add: isSelected_def)
  then show ?thesis
    using invar_ids_inj [OF invar_reachable assms(2,3)] by auto
qed

text \<open>
  C5.  Clearing the selection leaves no block marked (\<open>selection_cleared\<close>),
  and in the Kaspa skin, as for every block with a non-zero id in the Sui
  skin, selecting a block of the history marks that block and no other
  (\<open>selection_exact\<close>).  The Sui skin computes the prop as
  \<open>selectedBlock?.id || null\<close>: with the seed block (id 0) selected the
  prop is \<open>null\<close>, and the selected block itself is not marked.
\<close>

theorem sui_genesis_selection_not_marked:
  "genesis Sui 0 \<in> set (blocks (step Sui (\<lambda>v. None) (Select (Some (genesis Sui 0))) (mount Sui 0 0))) \<and>
   selectedBlock (step Sui (\<lambda>v. None) (Select (Some (genesis Sui 0))) (mount Sui 0 0)) = Some (genesis Sui 0) \<and>
   \<not> isSelected Sui (step Sui (\<lambda>v. None) (Select (Some (genesis Sui 0))) (mount Sui 0 0)) (genesis Sui 0)"
  by (simp add: isSelected_def)

section \<open>The startup fetch\<close>

lemma fetch_failure_masked:
  assumes "out = Rejected \<or> out = Response status None"
  shows "hasStartedRef (fetchSettled pI out s) \<and>
         baseHeight (stats (fetchSettled pI out s)) = Some 100000000"
  using assms by (auto simp: fetchSettled_def fetchCatch_def)

lemma fetch_success:
  assumes "blockCount data = Some v" "truthy data" "truthy v"
  shows "hasStartedRef (fetchSettled pI (Response status (Some data)) s) \<and>
         baseHeight (stats (fetchSettled pI (Response status (Some data)) s)) = pI v"
  using assms by (simp add: fetchSettled_def fetchThen_def)

lemma fetch_no_blockCount:
  assumes "blockCount data = None"
  shows "hasStartedRef (fetchSettled pI (Response status (Some data)) s) = hasStartedRef s \<and>
         stats (fetchSettled pI (Response status (Some data)) s) = stats s"
  using assms by (simp add: fetchSettled_def fetchThen_def)

lemma waiting_exec:
  assumes "\<not> hasStartedRef s" "\<forall>out. FetchSettled out \<notin> set evs"
  shows "\<not> hasStartedRef (exec Kaspa pI evs s) \<and>
         blocks (exec Kaspa pI evs s) = blocks s \<and>
         stats (exec Kaspa pI evs s) = stats s \<and>
         lastIdRef (exec Kaspa pI evs s) = lastIdRef s"
  using assms
proof (induction evs arbitrary: s)
  case Nil
  then show ?case by simp
next
  case (Cons e es)
  have quiet: "\<not> hasStartedRef (step Kaspa pI e s) \<and> blocks (step Kaspa pI e s) = blocks s \<and>
      stats (step Kaspa pI e s) = stats s \<and> lastIdRef (step Kaspa pI e s) = lastIdRef s"
  proof (cases e)
    case (FetchSettled out)
    with Cons.prems(2) show ?thesis by auto
  qed (use Cons.prems(1) in \<open>simp_all add: tick_not_started\<close>)
  moreover have "\<forall>out. FetchSettled out \<notin> set es"
    using Cons.prems by simp
  ultimately show ?case
    using Cons.IH [of "step Kaspa pI e s"] by simp
qed

lemma kaspa_waits_for_fetch:
  assumes "\<forall>out. FetchSettled out \<notin> set evs"
  shows "\<not> hasStartedRef (exec Kaspa pI evs (mount Kaspa t0 t1)) \<and>
         blocks (exec Kaspa pI evs (mount Kaspa t0 t1)) = [genesis Kaspa t1] \<and>
         produced Kaspa pI evs (mount Kaspa t0 t1) = []"
proof -
  have "\<not> hasStartedRef (mount Kaspa t0 t1)"
    by (simp add: mount_def seedEffect_def initial_def)
  from waiting_exec [OF this assms, of pI]
  have w: "\<not> hasStartedRef (exec Kaspa pI evs (mount Kaspa t0 t1))"
    "blocks (exec Kaspa pI evs (mount Kaspa t0 t1)) = [genesis Kaspa t1]"
    "lastIdRef (exec Kaspa pI evs (mount Kaspa t0 t1)) = 0"
    by simp_all
  have "length (produced Kaspa pI evs (mount Kaspa t0 t1)) = 0"
    using lastIdRef_exec_produced [of Kaspa pI evs "mount Kaspa t0 t1"] w(3) by simp
  with w show ?thesis by simp
qed

text \<open>
  C6.  A rejected fetch and a body that is not JSON reach the \<open>catch\<close>
  callback: the fallback 100000000 is stored and \<open>hasStartedRef\<close> is set
  (\<open>fetch_failure_masked\<close>); before the fetch settles the frame callback
  does nothing (\<open>kaspa_waits_for_fetch\<close>).  A failure whose body is JSON
  is not covered: for the reply 503 with body
  \<open>{"detail": "Service Unavailable"}\<close> the second \<open>then\<close> callback finds no
  \<open>blockCount\<close> and does nothing, nothing is thrown, so \<open>catch\<close> does not
  run.  After the start button and this reply, \<open>hasStartedRef\<close> is still
  false with the promise settled, \<open>baseHeight\<close> is still 0, and every later
  frame leaves the state as it is.
\<close>

theorem fetch_json_without_blockCount_never_starts:
  "\<not> hasStartedRef (exec Kaspa pI
       [HandleStart, FetchSettled (Response 503 (Some (JObj [(''detail'', JStr ''Service Unavailable'')])))]
       (mount Kaspa 0 0)) \<and>
   \<not> fetchPending (exec Kaspa pI
       [HandleStart, FetchSettled (Response 503 (Some (JObj [(''detail'', JStr ''Service Unavailable'')])))]
       (mount Kaspa 0 0)) \<and>
   baseHeight (stats (exec Kaspa pI
       [HandleStart, FetchSettled (Response 503 (Some (JObj [(''detail'', JStr ''Service Unavailable'')])))]
       (mount Kaspa 0 0))) = Some 0 \<and>
   (\<forall>now rnd. tick Kaspa now rnd (exec Kaspa pI
       [HandleStart, FetchSettled (Response 503 (Some (JObj [(''detail'', JStr ''Service Unavailable'')])))]
       (mount Kaspa 0 0)) =
     exec Kaspa pI
       [HandleStart, FetchSettled (Response 503 (Some (JObj [(''detail'', JStr ''Service Unavailable'')])))]
       (mount Kaspa 0 0))"
  by (simp add: mount_def seedEffect_def initial_def fetchSettled_def fetchThen_def tick_def)

theorem fetch_json_without_blockCount_never_starts_witness:
  "\<not> hasStartedRef (exec Kaspa (\<lambda>v. None)
       [HandleStart, FetchSettled (Response 503 (Some (JObj [(''detail'', JStr ''Service Unavailable'')])))]
       (mount Kaspa 0 0)) \<and>
   isRunning (exec Kaspa (\<lambda>v. None)
       [HandleStart, FetchSettled (Response 503 (Some (JObj [(''detail'', JStr ''Service Unavailable'')])))]
       (mount Kaspa 0 0)) \<and>
   blocks (tick Kaspa 999999 (\<lambda>i. 0) (exec Kaspa (\<lambda>v. None)
       [HandleStart, FetchSettled (Response 503 (Some (JObj [(''detail'', JStr ''Service Unavailable'')])))]
       (mount Kaspa 0 0))) = [genesis Kaspa 0]"
  using fetch_json_without_blockCount_never_starts [of "\<lambda>v. None"]
  by (simp add: mount_def seedEffect_def initial_def fetchSettled_def fetchThen_def)

section \<open>The interval guard\<close>

text \<open>
  C7.  A call of the frame callback at which the time elapsed since the
  last fire is below the interval (300 ms Kaspa, 600 ms Sui) returns the
  state it was given: history, selection, stats sink and every ref are
  unchanged.
\<close>

theorem below_interval_tick_is_noop:
  "now - lastTimeRef s < interval th \<Longrightarrow> tick th now rnd s = s"
  by (simp add: tick_def)

theorem below_interval_tick_is_noop_witness:
  "100 - lastTimeRef (mount Sui 0 0) < interval Sui \<and>
   hasStartedRef (mount Sui 0 0) \<and> isRunning (mount Sui 0 0) \<and>
   tick Sui 100 (\<lambda>k. 0) (mount Sui 0 0) = mount Sui 0 0"
proof -
  have h: "100 - lastTimeRef (mount Sui 0 0) < interval Sui"
    by (simp add: mount_def seedEffect_def initial_def)
  show ?thesis
    using h below_interval_tick_is_noop [OF h, of "\<lambda>k. 0"]
    by (simp add: mount_def seedEffect_def initial_def)
qed

text \<open>
  C8.  One call of the frame callback, whatever the clock reads: when it
  fires, the history becomes the updater's result for the one new block,
  \<open>lastTimeRef\<close> becomes \<open>now\<close> and \<open>lastIdRef\<close> grows by one; when it does
  not fire, the state is unchanged.  Either way the history gains at most
  the one block \<open>newBlock\<close> and at most one id is used.
\<close>

theorem at_most_one_block_per_tick:
  "(fires th now s \<longrightarrow>
      blocks (tick th now rnd s) = setBlocksUpdater th (newBlock th now rnd s) (blocks s) \<and>
      lastTimeRef (tick th now rnd s) = now \<and>
      lastIdRef (tick th now rnd s) = lastIdRef s + 1) \<and>
   (\<not> fires th now s \<longrightarrow> tick th now rnd s = s) \<and>
   set (blocks (tick th now rnd s)) \<subseteq> insert (newBlock th now rnd s) (set (blocks s)) \<and>
   length (blocks (tick th now rnd s)) \<le> length (blocks s) + 1 \<and>
   lastIdRef (tick th now rnd s) \<le> lastIdRef s + 1"
proof (cases "fires th now s")
  case True
  have "length (setBlocksUpdater th (newBlock th now rnd s) (blocks s)) \<le> length (blocks s) + 1"
    by (simp add: setBlocksUpdater_def Let_def)
  then show ?thesis
    using True set_setBlocksUpdater [of th "newBlock th now rnd s" "blocks s"]
    by (simp add: tick_fires)
next
  case False
  then show ?thesis by (auto simp: tick_fires)
qed

theorem at_most_one_block_per_tick_witness:
  "fires Sui 999999 (mount Sui 0 0) \<and>
   blocks (tick Sui 999999 (\<lambda>i. 0) (mount Sui 0 0)) =
     [genesis Sui 0, newBlock Sui 999999 (\<lambda>i. 0) (mount Sui 0 0)] \<and>
   lastTimeRef (tick Sui 999999 (\<lambda>i. 0) (mount Sui 0 0)) = 999999 \<and>
   lastIdRef (tick Sui 999999 (\<lambda>i. 0) (mount Sui 0 0)) = 1 \<and>
   \<not> fires Sui 600 (mount Sui 0 0) \<and>
   tick Sui 600 (\<lambda>i. 0) (mount Sui 0 0) = mount Sui 0 0"
proof -
  have s0: "hasStartedRef (mount Sui 0 0)" "isRunning (mount Sui 0 0)" "lastTimeRef (mount Sui 0 0) = 0"
    by (simp_all add: mount_def seedEffect_def initial_def)
  have f: "fires Sui 999999 (mount Sui 0 0)" and g: "\<not> fires Sui 600 (mount Sui 0 0)"
    using s0 by (simp_all add: fires_def)
  show ?thesis
    using f g at_most_one_block_per_tick [of Sui 999999 "mount Sui 0 0" "\<lambda>i. 0"]
      at_most_one_block_per_tick [of Sui 600 "mount Sui 0 0" "\<lambda>i. 0"]
    by (simp add: setBlocksUpdater_def)
qed

section \<open>The forced parent\<close>

text \<open>
  C9.  With an empty history the generator still builds a block (the next
  id, the current time) and its parent list is empty.  The parent list
  differs from the randomly picked one only when the history is non-empty
  and nothing was picked, and then it is the id of the most recent block
  alone.
\<close>

theorem empty_history_no_parents:
  "(blocks s = [] \<longrightarrow>
      parents (newBlock th now rnd s) = [] \<and>
      blockId (newBlock th now rnd s) = lastIdRef s + 1 \<and>
      createdAt (newBlock th now rnd s) = now) \<and>
   (parents (newBlock th now rnd s) \<noteq>
      pickParents (linkBound th) (sliceLast (window th) (blocks s)) rnd 2 \<longrightarrow>
      blocks s \<noteq> [] \<and>
      pickParents (linkBound th) (sliceLast (window th) (blocks s)) rnd 2 = [] \<and>
      parents (newBlock th now rnd s) = [blockId (last (blocks s))])"
  by (auto simp: findParents_def Let_def sliceLast_def)

theorem empty_history_no_parents_witness:
  "blocks (initial Kaspa 0) = [] \<and>
   parents (newBlock Kaspa 1000 (\<lambda>i. 1) (initial Kaspa 0)) = [] \<and>
   blockId (newBlock Kaspa 1000 (\<lambda>i. 1) (initial Kaspa 0)) = 1 \<and>
   parents (newBlock Kaspa 1000 (\<lambda>i. 0) (mount Kaspa 0 0)) \<noteq>
     pickParents (linkBound Kaspa) (sliceLast (window Kaspa) (blocks (mount Kaspa 0 0))) (\<lambda>i. 0) 2 \<and>
   blocks (mount Kaspa 0 0) \<noteq> [] \<and>
   parents (newBlock Kaspa 1000 (\<lambda>i. 0) (mount Kaspa 0 0)) = [blockId (last (blocks (mount Kaspa 0 0)))]"
proof -
  have e: "blocks (initial Kaspa 0) = []"
    by (simp add: initial_def)
  have d: "parents (newBlock Kaspa 1000 (\<lambda>i. 0) (mount Kaspa 0 0)) \<noteq>
     pickParents (linkBound Kaspa) (sliceLast (window Kaspa) (blocks (mount Kaspa 0 0))) (\<lambda>i. 0) 2"
    by (simp add: findParents_def sliceLast_def)
  show ?thesis
    using e d empty_history_no_parents [of "initial Kaspa 0" Kaspa 1000 "\<lambda>i. 1"]
      empty_history_no_parents [of "mount Kaspa 0 0" Kaspa 1000 "\<lambda>i. 0"]
    by (simp add: initial_def)
qed

text \<open>
  C10.  In every reachable state the parent list of the block the
  generator builds has no repeated id and at most \<open>window\<close> entries (8
  Kaspa, 6 Sui), and the same holds of every block kept in the history.
\<close>

theorem parents_distinct_bounded:
  "distinct (parents (newBlock th now rnd (exec th pI evs (mount th t0 t1)))) \<and>
   length (parents (newBlock th now rnd (exec th pI evs (mount th t0 t1)))) \<le> window th \<and>
   window Kaspa = 8 \<and> window Sui = 6 \<and>
   (\<forall>b \<in> set (blocks (exec th pI evs (mount th t0 t1))).
      distinct (parents b) \<and> length (parents b) \<le> window th)"
proof -
  let ?s = "exec th pI evs (mount th t0 t1)"
  have inv: "invar th ?s" by (rule invar_reachable)
  then have "wellLinked th (newBlock th now rnd ?s)"
    by (rule newBlock_wellLinked)
  moreover have "\<forall>b \<in> set (blocks ?s). wellLinked th b"
    using inv by (simp add: invar_def)
  ultimately show ?thesis
    by (simp add: wellLinked_def)
qed

theorem parents_distinct_bounded_witness:
  "newBlock Sui 1000 (\<lambda>i. 0) (mount Sui 0 0)
     \<in> set (blocks (exec Sui (\<lambda>v. None) [Frame 1000 (\<lambda>i. 0)] (mount Sui 0 0))) \<and>
   length (parents (newBlock Sui 1000 (\<lambda>i. 0) (mount Sui 0 0))) \<le> window Sui \<and>
   parents (newBlock Sui 2000 (\<lambda>i. 1) (exec Sui (\<lambda>v. None) [Frame 1000 (\<lambda>i. 0)] (mount Sui 0 0))) = [0, 1] \<and>
   distinct (parents (newBlock Sui 2000 (\<lambda>i. 1) (exec Sui (\<lambda>v. None) [Frame 1000 (\<lambda>i. 0)] (mount Sui 0 0)))) \<and>
   length (parents (newBlock Sui 2000 (\<lambda>i. 1) (exec Sui (\<lambda>v. None) [Frame 1000 (\<lambda>i. 0)] (mount Sui 0 0)))) \<le> 6"
proof -
  let ?s1 = "exec Sui (\<lambda>v. None) [Frame 1000 (\<lambda>i. 0)] (mount Sui 0 0)"
  let ?b1 = "newBlock Sui 1000 (\<lambda>i. 0) (mount Sui 0 0)"
  let ?b2 = "newBlock Sui 2000 (\<lambda>i. 1) ?s1"
  note inst = parents_distinct_bounded [of Sui 2000 "\<lambda>i. 1" "\<lambda>v. None" "[Frame 1000 (\<lambda>i. 0)]" 0 0]
  have bs: "blocks ?s1 = [genesis Sui 0, ?b1]"
    using sui_first_frame(1) [of "\<lambda>v. None"] sui_first_frame(2) by simp
  then have mem: "?b1 \<in> set (blocks ?s1)"
    by simp
  have p2: "parents ?b2 = [0, 1]"
    by (simp add: sui_first_frame(2) findParents_def sliceLast_def)
  have "length (parents ?b1) \<le> window Sui"
    using inst mem by blast
  moreover have "distinct (parents ?b2)" and "length (parents ?b2) \<le> 6"
    using inst by simp_all
  ultimately show ?thesis
    using mem p2 by blast
qed

end
